theory Spec2Isabelle
  imports Main "HOL-Library.Word" "HOL-Library.Signed_Division"
begin

unbundle bit_operations_syntax

section \<open>The LcdDriver class of the Nokia 5110 library\<close>

text \<open>
  The driver keeps a 504-byte mirror of the display memory (84 columns, 6 pages of 8 rows)
  and talks to the display by toggling five GPIO lines. The model follows
  \<^verbatim>\<open>LcdDriver.hpp\<close> function by function. A \<^verbatim>\<open>uint8_t\<close> is an \<open>8 word\<close>; the
  index arithmetic, which C++ performs on \<^verbatim>\<open>int\<close> after promotion, is on \<open>int\<close>.
\<close>

type_synonym byte = "8 word"

definition LCD_WIDTH :: int where "LCD_WIDTH = 84"
definition LCD_HEIGHT :: int where "LCD_HEIGHT = 48"
definition LCD_SIZE :: int where "LCD_SIZE = LCD_WIDTH * LCD_HEIGHT sdiv 8"

definition LCD_COMMAND :: byte where "LCD_COMMAND = 0"
definition LCD_DATA :: byte where "LCD_DATA = 1"
definition LCD_SETYADDR :: byte where "LCD_SETYADDR = 0x40"
definition LCD_SETXADDR :: byte where "LCD_SETXADDR = 0x80"

subsection \<open>Accesses outside an array\<close>

text \<open>
  The class checks no index. An access outside an array is undefined behaviour in C++;
  the model makes it a value, so that a result \<open>Inr\<close> means that every access of the
  run was inside its array. The faults name the array that was left: the glyph data
  handed in by the caller, the local array \<^verbatim>\<open>new_data\<close>, the member \<^verbatim>\<open>buffer\<close>, the
  font table. \<open>ShiftUndefined\<close> is a shift by a negative count or by 32 or more.
\<close>

datatype fault = GlyphOverread | ScratchOverrun | BufferOverrun | FontOverread | ShiftUndefined

definition and_then :: "fault + 'a \<Rightarrow> ('a \<Rightarrow> fault + 'b) \<Rightarrow> fault + 'b" where
  "and_then m f = (case m of Inl e \<Rightarrow> Inl e | Inr v \<Rightarrow> f v)"

definition load :: "fault \<Rightarrow> 'a list \<Rightarrow> int \<Rightarrow> fault + 'a" where
  "load e xs k = (if 0 \<le> k \<and> k < int (length xs) then Inr (xs ! nat k) else Inl e)"

definition store :: "fault \<Rightarrow> 'a list \<Rightarrow> int \<Rightarrow> 'a \<Rightarrow> fault + 'a list" where
  "store e xs k v = (if 0 \<le> k \<and> k < int (length xs) then Inr (xs[nat k := v]) else Inl e)"

text \<open>\<^verbatim>\<open>xs[k] |= v\<close>\<close>

definition or_into :: "fault \<Rightarrow> byte list \<Rightarrow> int \<Rightarrow> byte \<Rightarrow> fault + byte list" where
  "or_into e xs k v = and_then (load e xs k) (\<lambda>old. store e xs k (old OR v))"

text \<open>A counting loop whose body may leave an array: the first fault ends the run.\<close>

fun for_each :: "'i list \<Rightarrow> ('i \<Rightarrow> 's \<Rightarrow> fault + 's) \<Rightarrow> 's \<Rightarrow> fault + 's" where
  "for_each [] body s = Inr s"
| "for_each (k # ks) body s = and_then (body k s) (for_each ks body)"

subsection \<open>count_bits and find_affected_rows\<close>

definition count_bits :: "byte \<Rightarrow> byte" where
  "count_bits n =
     fold (\<lambda>i bit_count. if n AND push_bit i 1 \<noteq> 0 then bit_count + 1 else bit_count)
          [0..<8] 0"

text \<open>
  The first loop of \<^verbatim>\<open>find_affected_rows\<close>, \<^verbatim>\<open>for (int i = 0; i < LCD_HEIGHT; i += 8)\<close>,
  with its two tests: the start row and the end row.
\<close>

function mark_start_end :: "int \<Rightarrow> int \<Rightarrow> int \<Rightarrow> byte \<Rightarrow> byte" where
  "mark_start_end y char_height i affected_rows =
     (if i < LCD_HEIGHT then
        let a1 = (if y < i + 8 \<and> y \<ge> i
                  then affected_rows OR push_bit (nat (i sdiv 8)) 1 else affected_rows);
            a2 = (if y + char_height - 1 < i + 8 \<and> y + char_height \<ge> i
                  then a1 OR push_bit (nat (i sdiv 8)) 1 else a1)
        in mark_start_end y char_height (i + 8) a2
      else affected_rows)"
  by pat_completeness auto
termination
  by (relation "measure (\<lambda>(y, h, i, a). nat (LCD_HEIGHT - i))") (auto simp: LCD_HEIGHT_def)

declare mark_start_end.simps [simp del]

text \<open>
  The second loop, \<^verbatim>\<open>for (int i = (y/8) + 1; i < (y + char_height - 1)/8; i++)\<close>. The
  result is a \<^verbatim>\<open>uint8_t\<close>: a bit at position 8 or above is lost in the assignment.
  (C++ leaves \<^verbatim>\<open>1 << i\<close> undefined from \<open>i = 32\<close> on, which needs \<open>y + char_height > 264\<close>.)
\<close>

function mark_between :: "int \<Rightarrow> int \<Rightarrow> byte \<Rightarrow> byte" where
  "mark_between i stop affected_rows =
     (if i < stop then mark_between (i + 1) stop (affected_rows OR push_bit (nat i) 1)
      else affected_rows)"
  by pat_completeness auto
termination
  by (relation "measure (\<lambda>(i, stop, a). nat (stop - i))") auto

declare mark_between.simps [simp del]

definition find_affected_rows :: "byte \<Rightarrow> byte \<Rightarrow> byte" where
  "find_affected_rows y char_height =
     mark_between (uint y sdiv 8 + 1) ((uint y + uint char_height - 1) sdiv 8)
       (mark_start_end (uint y) (uint char_height) 0 0)"

subsection \<open>shift_data\<close>

text \<open>
  \<^verbatim>\<open>data\<close> and \<^verbatim>\<open>new_data\<close> are pointers in the source; the model takes the arrays
  behind them as lists and returns the new contents of \<^verbatim>\<open>new_data\<close>. A byte shifted
  left is promoted to \<^verbatim>\<open>int\<close> and cut to 8 bits again by the assignment, which is
  \<open>push_bit\<close> on \<open>8 word\<close>.
\<close>

definition shift_data :: "byte list \<Rightarrow> byte \<Rightarrow> byte list \<Rightarrow> byte \<Rightarrow> byte \<Rightarrow> fault + byte list" where
  "shift_data data char_width new_data shift_value bit_count =
     (let w = uint char_width; s = unat shift_value in
      if shift_value = 0 then
        for_each [0..<unat char_width] (\<lambda>i.
          for_each [0..<unat bit_count] (\<lambda>j nd.
            and_then (load GlyphOverread data (int i + int j * w)) (\<lambda>v.
            store ScratchOverrun nd (int i + int j * w) v)))
          new_data
      else if bit_count \<noteq> 1 then
        for_each [0..<unat char_width] (\<lambda>i.
          for_each (rev [1..<unat bit_count]) (\<lambda>j nd.
            and_then (load GlyphOverread data (int i + (int j - 1) * w)) (\<lambda>v.
            and_then (if 8 < s then Inl ShiftUndefined else Inr (drop_bit (8 - s) v)) (\<lambda>carry.
            and_then (or_into ScratchOverrun nd (int i + int j * w) carry) (\<lambda>nd1.
            or_into ScratchOverrun nd1 (int i + (int j - 1) * w) (push_bit s v))))))
          new_data
      else
        for_each [0..<unat char_width] (\<lambda>i nd.
          and_then (load GlyphOverread data (int i)) (\<lambda>v.
          and_then (if 32 \<le> s then Inl ShiftUndefined else Inr (drop_bit s v)) (\<lambda>shifted.
          store ScratchOverrun nd (int i) shifted)))
          new_data)"

subsection \<open>The driver's state and the bus\<close>

text \<open>
  The five lines of the display. \<^verbatim>\<open>HAL_GPIO_WritePin\<close> is outside the library: the model
  records each call, the line and the level written, in the order of the calls.
\<close>

datatype line = RST | CE | DC | DIN | CLK

record lcd =
  buffer :: "byte list"
  inverttext :: bool
  cursor_x :: int
  cursor_y :: int
  wire :: "(line \<times> bool) list"

definition HAL_GPIO_WritePin :: "line \<Rightarrow> bool \<Rightarrow> lcd \<Rightarrow> lcd" where
  "HAL_GPIO_WritePin l level st = st\<lparr>wire := wire st @ [(l, level)]\<rparr>"

fun send_bits :: "nat \<Rightarrow> byte \<Rightarrow> lcd \<Rightarrow> lcd" where
  "send_bits 0 d st = st"
| "send_bits (Suc n) d st =
     send_bits n (push_bit 1 d)
       (HAL_GPIO_WritePin CLK True
         (HAL_GPIO_WritePin CLK False
           (HAL_GPIO_WritePin DIN (d AND 0x80 \<noteq> 0) st)))"

definition send :: "byte \<Rightarrow> lcd \<Rightarrow> lcd" where
  "send d st = send_bits 8 d st"

text \<open>\<^verbatim>\<open>write\<close> is a keyword of Isabelle: the method is \<open>write_byte\<close> here.\<close>

definition write_byte :: "byte \<Rightarrow> byte \<Rightarrow> lcd \<Rightarrow> lcd" where
  "write_byte d mode st =
     (if LCD_COMMAND = mode then
        HAL_GPIO_WritePin CE True
          (send d (HAL_GPIO_WritePin CE False (HAL_GPIO_WritePin DC False st)))
      else if LCD_DATA = mode then
        HAL_GPIO_WritePin CE True
          (send d (HAL_GPIO_WritePin CE False (HAL_GPIO_WritePin DC True st)))
      else st)"

definition setXY :: "byte \<Rightarrow> byte \<Rightarrow> lcd \<Rightarrow> lcd" where
  "setXY x y st =
     (write_byte (LCD_SETXADDR OR x) LCD_COMMAND (write_byte (LCD_SETYADDR OR y) LCD_COMMAND st))
       \<lparr>cursor_x := uint x, cursor_y := uint y\<rparr>"

definition clear :: "lcd \<Rightarrow> lcd" where
  "clear st =
     fold (\<lambda>i st. (let st1 = write_byte 0x00 LCD_DATA st in st1\<lparr>buffer := (buffer st1)[i := 0x00]\<rparr>))
          [0..<nat LCD_SIZE] st"

definition refresh_screen :: "lcd \<Rightarrow> lcd" where
  "refresh_screen st =
     fold (\<lambda>i. fold (\<lambda>j st. write_byte (buffer st ! nat (int i * LCD_WIDTH + int j)) LCD_DATA st)
                     [0..<nat LCD_WIDTH])
          [0..<6] (setXY LCD_SETXADDR LCD_SETYADDR st)"

definition invert :: "bool \<Rightarrow> lcd \<Rightarrow> lcd" where
  "invert mode st = st\<lparr>inverttext := mode\<rparr>"

subsection \<open>write_to_buffer\<close>

text \<open>
  The scan \<^verbatim>\<open>for (int j = 7; j > -1; j--)\<close> for the highest set bit of
  \<^verbatim>\<open>affected_rows\<close>: the bit found is reset; with no bit set the row stays 0.
\<close>

fun scan_row :: "nat list \<Rightarrow> byte \<Rightarrow> nat \<times> byte" where
  "scan_row [] affected_rows = (0, affected_rows)"
| "scan_row (j # js) affected_rows =
     (if affected_rows AND push_bit j 1 \<noteq> 0
      then (j, affected_rows AND NOT (push_bit j 1))
      else scan_row js affected_rows)"

text \<open>
  The three statements on one cell: an \<^verbatim>\<open>if\<close>, then an \<^verbatim>\<open>if\<close> with an \<^verbatim>\<open>else\<close>.
\<close>

definition merge_cell :: "bool \<Rightarrow> bool \<Rightarrow> byte \<Rightarrow> byte \<Rightarrow> byte" where
  "merge_cell inverted char_mode old d =
     (let b1 = (if inverted \<and> char_mode then old OR NOT d else old)
      in if inverted \<and> \<not> char_mode then b1 AND NOT d else b1 OR d)"

definition write_row :: "bool \<Rightarrow> bool \<Rightarrow> int \<Rightarrow> nat \<Rightarrow> byte list \<Rightarrow> int \<Rightarrow> int \<Rightarrow> byte list
    \<Rightarrow> fault + byte list" where
  "write_row inverted char_mode x row new_data char_width new_data_row buf =
     for_each [0..<nat char_width] (\<lambda>j b.
       and_then (load ScratchOverrun new_data (int j + new_data_row * char_width)) (\<lambda>d.
       and_then (load BufferOverrun b (x + int row * LCD_WIDTH + int j)) (\<lambda>old.
       store BufferOverrun b (x + int row * LCD_WIDTH + int j) (merge_cell inverted char_mode old d))))
       buf"

fun write_rows :: "nat \<Rightarrow> bool \<Rightarrow> bool \<Rightarrow> int \<Rightarrow> byte \<Rightarrow> byte list \<Rightarrow> int \<Rightarrow> int \<Rightarrow> byte list
    \<Rightarrow> fault + byte list" where
  "write_rows 0 inverted char_mode x affected_rows new_data char_width new_data_row buf = Inr buf"
| "write_rows (Suc n) inverted char_mode x affected_rows new_data char_width new_data_row buf =
     (case scan_row [7, 6, 5, 4, 3, 2, 1, 0] affected_rows of
        (row, affected_rows') \<Rightarrow>
          and_then (write_row inverted char_mode x row new_data char_width new_data_row buf)
            (write_rows n inverted char_mode x affected_rows' new_data char_width (new_data_row - 1)))"

definition write_to_buffer :: "int \<Rightarrow> byte \<Rightarrow> byte list \<Rightarrow> int \<Rightarrow> byte \<Rightarrow> bool \<Rightarrow> lcd \<Rightarrow> fault + lcd" where
  "write_to_buffer x affected_rows new_data char_width bit_count char_mode st =
     and_then
       (write_rows (unat bit_count) (inverttext st) char_mode x affected_rows new_data char_width
          (uint bit_count - 1) (buffer st))
       (\<lambda>buf. Inr (st\<lparr>buffer := buf\<rparr>))"

subsection \<open>put_char_xy\<close>

text \<open>
  \<^verbatim>\<open>custom_char.h\<close> is not among the sources. \<^verbatim>\<open>put_char_xy\<close> reads three members of
  its argument, which are the fields of the record below; the numbers are cut to
  \<^verbatim>\<open>uint8_t\<close> where the source passes them to a \<^verbatim>\<open>uint8_t\<close> parameter.
\<close>

record custom_char =
  char_width :: nat
  char_height :: nat
  data :: "byte list"

definition put_char_xy :: "custom_char \<Rightarrow> byte \<Rightarrow> byte \<Rightarrow> lcd \<Rightarrow> fault + lcd" where
  "put_char_xy c x y st =
     (let shift_value = y mod 8;
          affected_rows = find_affected_rows y (of_nat (char_height c));
          bit_count = count_bits affected_rows;
          new_data = replicate (char_width c * unat bit_count) 0x00
      in and_then (shift_data (data c) (of_nat (char_width c)) new_data shift_value bit_count)
           (\<lambda>shifted.
         and_then (write_to_buffer (uint x) affected_rows shifted (int (char_width c)) bit_count
                     False st)
           (\<lambda>st1. Inr (refresh_screen st1))))"

subsection \<open>print_buffer\<close>

text \<open>
  \<^verbatim>\<open>font.h\<close> is not among the sources. A font is a
  \<^verbatim>\<open>std::array<std::array<T, N>, M>\<close>: \<open>M\<close> glyphs of \<open>N\<close> columns each. The model keeps
  \<open>N\<close>, which the source knows from the type alone, beside the rows.

  The string ends at its first zero byte. A \<^verbatim>\<open>char\<close> outside \<^verbatim>\<open>' '\<close> .. \<^verbatim>\<open>'~'\<close> is
  replaced before the table is indexed by \<^verbatim>\<open>c - ' '\<close>; the test comes out the same
  whether \<^verbatim>\<open>char\<close> is signed or not, since a byte from 0x80 on is either negative or
  larger than \<^verbatim>\<open>'~'\<close>.
\<close>

record 'a font =
  font_N :: nat
  font_rows :: "'a list list"

fun print_buffer :: "string \<Rightarrow> byte \<Rightarrow> byte \<Rightarrow> byte font \<Rightarrow> lcd \<Rightarrow> fault + lcd" where
  "print_buffer [] x y fontData st = Inr st"
| "print_buffer (ch # str) x y fontData st =
     (if ch = CHR 0x00 then Inr st
      else
        let cw = (of_nat (font_N fontData) :: byte);
            shift_value = y mod 8;
            affected_rows = find_affected_rows y (of_nat (font_N fontData));
            bit_count = count_bits affected_rows;
            new_data = replicate (unat cw * unat bit_count) 0x00;
            c = (if of_char ch < (32 :: nat) \<or> of_char ch > (126 :: nat) then CHR '' '' else ch)
        in and_then (load FontOverread (font_rows fontData) (int (of_char c) - 32)) (\<lambda>glyph.
           and_then (shift_data glyph cw new_data shift_value bit_count) (\<lambda>shifted.
           and_then (write_to_buffer (uint x) affected_rows shifted (uint cw) bit_count False st)
             (\<lambda>st1.
           print_buffer str (x + of_nat (font_N fontData)) y fontData (refresh_screen st1)))))"

subsection \<open>print\<close>







text \<open>
  The object as \<^verbatim>\<open>LcdDriver lcd;\<close> constructs it, from the initialisers of the members.
\<close>

definition LcdDriver :: lcd where
  "LcdDriver = \<lparr>buffer = replicate (nat LCD_SIZE) 0x00, inverttext = False,
                cursor_x = 0, cursor_y = 0, wire = []\<rparr>"

section \<open>Invariants of the loops\<close>

text \<open>
  \<open>settled f old S xs\<close>: the array \<open>xs\<close> is \<open>old\<close> with the cells in \<open>S\<close> overwritten, cell
  \<open>k\<close> by \<open>f k\<close>. It is the invariant of a loop of assignments \<^verbatim>\<open>xs[k] = f(k)\<close>.
\<close>

definition settled :: "(nat \<Rightarrow> 'a) \<Rightarrow> 'a list \<Rightarrow> nat set \<Rightarrow> 'a list \<Rightarrow> bool" where
  "settled f old S xs \<longleftrightarrow>
     length xs = length old
     \<and> (\<forall>k. k < length old \<longrightarrow> xs ! k = (if k \<in> S then f k else old ! k))"


text \<open>
  The number of pages that \<^verbatim>\<open>find_affected_rows\<close> marks for a glyph of \<open>h\<close> rows at row
  \<open>y\<close>, as the loops give it: the pages the rows \<open>y\<close> .. \<open>y + h - 1\<close> lie on, and one more
  when the glyph ends on the last row of a page that is not the last page.
\<close>

definition pages_counted :: "nat \<Rightarrow> nat \<Rightarrow> bool" where
  "pages_counted y h \<longleftrightarrow>
     unat (count_bits (find_affected_rows (of_nat y) (of_nat h)))
       = (y mod 8 + h + 7) div 8 + (if (y + h) mod 8 = 0 \<and> y + h < 48 then 1 else 0)"

section \<open>Properties\<close>

subsection \<open>Evaluation of the loops\<close>

lemma count_bits_3: "count_bits 3 = 2"
  by code_simp

lemma find_affected_rows_0_8: "find_affected_rows 0 8 = 3"
  by code_simp

lemma merge_cell_inverted_char: "merge_cell True True old d = 0xFF"
  by (simp add: merge_cell_def Let_def or.assoc)

subsection \<open>The pages a glyph touches\<close>

text \<open>
  C1. The number of pages marked by \<^verbatim>\<open>find_affected_rows(y, h)\<close> is said to be
  \<open>ceil((y % 8 + h) / 8)\<close>, which is 1 for a glyph of 8 rows at \<open>y = 0\<close>. The end-row
  test of the source compares \<open>y + char_height\<close>, not \<open>y + char_height - 1\<close>, with the
  first row of a page: at \<open>y = 0\<close>, \<open>h = 8\<close> it marks page 1 as well, and two bits are
  counted where the formula gives one.
\<close>

theorem find_affected_rows_marks_page_after_aligned_end:
  "find_affected_rows 0 8 = 3
   \<and> count_bits (find_affected_rows 0 8) = 2
   \<and> unat (count_bits (find_affected_rows 0 8)) \<noteq> (0 mod 8 + 8 + 7) div 8"
  by (simp add: find_affected_rows_0_8 count_bits_3)

text \<open>
  The count for every glyph that fits the display, by evaluation of all 1176 cases:
  the formula of C1 holds exactly where \<open>y + h\<close> is no multiple of 8 or is 48.
\<close>

lemma pages_counted_all:
  "list_all (\<lambda>y. list_all (\<lambda>h. pages_counted y h) [1..<49 - y]) [0..<48]"
  by code_simp

lemma find_affected_rows_page_count:
  assumes "y < 48" "1 \<le> h" "y + h \<le> 48"
  shows "unat (count_bits (find_affected_rows (of_nat y) (of_nat h)))
       = (y mod 8 + h + 7) div 8 + (if (y + h) mod 8 = 0 \<and> y + h < 48 then 1 else 0)"
proof -
  have "y \<in> set [0..<48]"
    using assms(1) by simp
  then have "list_all (\<lambda>h. pages_counted y h) [1..<49 - y]"
    using pages_counted_all unfolding list_all_iff by blast
  moreover have "h \<in> set [1..<49 - y]"
    using assms(2,3) by simp
  ultimately have "pages_counted y h"
    unfolding list_all_iff by blast
  then show ?thesis
    by (simp only: pages_counted_def)
qed

subsection \<open>The merge of a cell\<close>

text \<open>
  C2. With \<^verbatim>\<open>inverttext\<close> set and \<^verbatim>\<open>char_mode\<close> true, a cell is said to become
  \<open>buffer[cell] | ~shifted_byte\<close> and nothing more. In the source the second \<^verbatim>\<open>if\<close> is
  not chained to the first by an \<^verbatim>\<open>else\<close>, so its \<^verbatim>\<open>else\<close> branch runs too and ORs
  the plain byte in: a cell of 0x00 that receives 0x0F ends as 0xFF, not as 0xF0.
\<close>

theorem write_to_buffer_inverted_char_ors_plain_byte:
  "write_to_buffer 0 1 [0x0F] 1 1 True (LcdDriver\<lparr>inverttext := True\<rparr>)
     = Inr (LcdDriver\<lparr>inverttext := True, buffer := 0xFF # replicate 503 0x00\<rparr>)
   \<and> (0x00 OR NOT 0x0F :: byte) = 0xF0"
  by code_simp

subsection \<open>An aligned glyph of 8 rows\<close>

text \<open>
  C4. A glyph of 5 columns and 8 rows, every column 0xFF, placed at \<open>(10, 0)\<close> is said to
  set page 0 of columns 10 to 14 and nothing else. \<^verbatim>\<open>put_char_xy\<close> counts two pages for
  it (see C1), so \<^verbatim>\<open>shift_data\<close> copies 10 bytes out of the 5 of the glyph: the run
  reads past the glyph's data, and what lies there is ORed into page 1.
\<close>

theorem put_char_xy_aligned_glyph_reads_past_data:
  "put_char_xy \<lparr>char_width = 5, char_height = 8, data = [0xFF, 0xFF, 0xFF, 0xFF, 0xFF]\<rparr> 10 0 st
     = Inl GlyphOverread"
proof -
  have "shift_data [0xFF, 0xFF, 0xFF, 0xFF, 0xFF] 5 (replicate 10 0x00) 0 2 = Inl GlyphOverread"
    by code_simp
  then show ?thesis
    by (simp add: put_char_xy_def Let_def find_affected_rows_0_8 count_bits_3 and_then_def)
qed

text \<open>
  The same placement when five more bytes, 1 to 5, follow the glyph in its array:
  they are what page 1 of columns 10 to 14 receives.
\<close>

lemma put_char_xy_aligned_glyph_merges_following_bytes:
  "put_char_xy \<lparr>char_width = 5, char_height = 8,
                data = [0xFF, 0xFF, 0xFF, 0xFF, 0xFF, 0x01, 0x02, 0x03, 0x04, 0x05]\<rparr>
     10 0 LcdDriver
   = Inr (refresh_screen (LcdDriver\<lparr>buffer :=
       replicate 10 0x00 @ replicate 5 0xFF @ replicate 79 0x00
       @ [0x01, 0x02, 0x03, 0x04, 0x05] @ replicate 405 0x00\<rparr>))"
proof -
  have "shift_data [0xFF, 0xFF, 0xFF, 0xFF, 0xFF, 0x01, 0x02, 0x03, 0x04, 0x05] 5
          (replicate 10 0x00) 0 2
      = Inr [0xFF, 0xFF, 0xFF, 0xFF, 0xFF, 0x01, 0x02, 0x03, 0x04, 0x05]"
    by code_simp
  moreover have "write_to_buffer 10 3 [0xFF, 0xFF, 0xFF, 0xFF, 0xFF, 0x01, 0x02, 0x03, 0x04, 0x05]
          5 2 False LcdDriver
      = Inr (LcdDriver\<lparr>buffer :=
          replicate 10 0x00 @ replicate 5 0xFF @ replicate 79 0x00
          @ [0x01, 0x02, 0x03, 0x04, 0x05] @ replicate 405 0x00\<rparr>)"
    by code_simp
  ultimately show ?thesis
    by (simp add: put_char_xy_def Let_def find_affected_rows_0_8 count_bits_3 and_then_def)
qed

subsection \<open>Lemmas on the loops and the index arithmetic\<close>

lemma and_then_Inr [simp]: "and_then (Inr v) f = f v"
  by (simp add: and_then_def)

lemma and_then_Inl [simp]: "and_then (Inl e) f = Inl e"
  by (simp add: and_then_def)

lemma load_nat [simp]: "load e xs (int k) = (if k < length xs then Inr (xs ! k) else Inl e)"
  by (simp add: load_def)

lemma store_nat [simp]:
  "store e xs (int k) v = (if k < length xs then Inr (xs[k := v]) else Inl e)"
  by (simp add: store_def)

lemma or_into_nat [simp]:
  "or_into e xs (int k) v = (if k < length xs then Inr (xs[k := xs ! k OR v]) else Inl e)"
  by (simp add: or_into_def)

text \<open>A loop whose steps each settle a set of cells settles the union of the sets.\<close>

lemma for_each_accum:
  assumes "Q A s"
    and "\<And>k B t. k \<in> set ks \<Longrightarrow> Q B t \<Longrightarrow> \<exists>t'. body k t = Inr t' \<and> Q (B \<union> G k) t'"
  shows "\<exists>t'. for_each ks body s = Inr t' \<and> Q (A \<union> (\<Union>k\<in>set ks. G k)) t'"
  using assms
proof (induction ks arbitrary: A s)
  case Nil
  then show ?case by simp
next
  case (Cons k ks)
  from Cons.prems obtain t where t: "body k s = Inr t" "Q (A \<union> G k) t"
    by (meson list.set_intros(1))
  have "\<exists>t'. for_each ks body t = Inr t' \<and> Q ((A \<union> G k) \<union> (\<Union>k\<in>set ks. G k)) t'"
    by (rule Cons.IH [OF t(2)]) (simp add: Cons.prems(2))
  then show ?case
    using t(1) by (simp add: Un_assoc)
qed

lemma cell_less: "i < w \<Longrightarrow> j < b \<Longrightarrow> i + j * w < w * (b::nat)"
proof -
  assume i: "i < w" and j: "j < b"
  have "Suc j * w \<le> b * w"
    using j by (intro mult_le_mono1) simp
  then show ?thesis
    using i by (simp add: mult.commute)
qed


lemma cell_index: "int i + int j * uint (cw :: byte) = int (i + j * unat cw)"
  by simp

lemma settled_start: "settled f old {} old"
  by (simp add: settled_def)

lemma settled_step:
  assumes "settled f old S xs" "c < length old"
  shows "settled f old (S \<union> {c}) (xs[c := f c])"
  using assms by (auto simp: settled_def nth_list_update)

subsection \<open>The bus leaves the buffer alone\<close>

lemma buffer_send_bits [simp]: "buffer (send_bits n d st) = buffer st"
  by (induction n arbitrary: d st) (simp_all add: HAL_GPIO_WritePin_def)

lemma inverttext_send_bits [simp]: "inverttext (send_bits n d st) = inverttext st"
  by (induction n arbitrary: d st) (simp_all add: HAL_GPIO_WritePin_def)

lemma buffer_write_byte [simp]: "buffer (write_byte d mode st) = buffer st"
  by (simp add: write_byte_def send_def HAL_GPIO_WritePin_def)

lemma inverttext_write_byte [simp]: "inverttext (write_byte d mode st) = inverttext st"
  by (simp add: write_byte_def send_def HAL_GPIO_WritePin_def)

lemma write_byte_zero_data:
  "write_byte 0x00 LCD_DATA st =
     st\<lparr>wire := wire st @
       [(DC, True), (CE, False),
        (DIN, False), (CLK, False), (CLK, True), (DIN, False), (CLK, False), (CLK, True),
        (DIN, False), (CLK, False), (CLK, True), (DIN, False), (CLK, False), (CLK, True),
        (DIN, False), (CLK, False), (CLK, True), (DIN, False), (CLK, False), (CLK, True),
        (DIN, False), (CLK, False), (CLK, True), (DIN, False), (CLK, False), (CLK, True),
        (CE, True)]\<rparr>"
  by (simp add: write_byte_def LCD_DATA_def LCD_COMMAND_def send_def HAL_GPIO_WritePin_def
      eval_nat_numeral)

subsection \<open>clear\<close>

lemma clear_step:
  assumes "n < length b"
  shows "(replicate n (0::byte) @ drop n b)[n := 0] = replicate (Suc n) 0 @ drop (Suc n) b"
proof -
  have "drop n b = b ! n # drop (Suc n) b"
    using assms by (simp add: Cons_nth_drop_Suc)
  then show ?thesis
    by (simp add: list_update_append replicate_app_Cons_same)
qed

lemma concat_replicate_snoc: "concat (replicate n xs) @ xs = xs @ concat (replicate n xs)"
  by (induction n) simp_all

lemma clear_loop:
  assumes "n \<le> length (buffer st)"
  shows "fold (\<lambda>i s. s\<lparr>wire := wire s @ E, buffer := (buffer s)[i := 0x00]\<rparr>) [0..<n] st
       = st\<lparr>buffer := replicate n 0x00 @ drop n (buffer st),
             wire := wire st @ concat (replicate n E)\<rparr>"
  using assms
proof (induction n)
  case 0
  then show ?case by simp
next
  case (Suc n)
  then have n: "n < length (buffer st)" by simp
  show ?case
    using Suc.IH n
    by (simp add: clear_step concat_replicate_snoc del: replicate_Suc replicate.simps)
       (simp add: replicate_app_Cons_same)
qed

text \<open>
  C9. \<^verbatim>\<open>clear()\<close> sets each of the 504 bytes of the buffer to 0x00 and sends, for each
  of them, one byte 0x00 to the display in data mode: DC high, CE low, eight zero bits
  clocked out on DIN, CE high. The lines see exactly these 504 writes, in this order.
\<close>

theorem clear_zeroes_buffer_and_sends_each_byte:
  assumes "length (buffer st) = 504"
  shows "clear st =
     st\<lparr>buffer := replicate 504 0x00,
        wire := wire st @ concat (replicate 504
       [(DC, True), (CE, False),
        (DIN, False), (CLK, False), (CLK, True), (DIN, False), (CLK, False), (CLK, True),
        (DIN, False), (CLK, False), (CLK, True), (DIN, False), (CLK, False), (CLK, True),
        (DIN, False), (CLK, False), (CLK, True), (DIN, False), (CLK, False), (CLK, True),
        (DIN, False), (CLK, False), (CLK, True), (DIN, False), (CLK, False), (CLK, True),
        (CE, True)])\<rparr>"
proof -
  have n: "nat LCD_SIZE = 504"
    by (simp add: LCD_SIZE_def LCD_WIDTH_def LCD_HEIGHT_def)
  show ?thesis
    unfolding clear_def n Let_def write_byte_zero_data
    using clear_loop [of 504 st] assms by simp
qed

theorem clear_zeroes_buffer_and_sends_each_byte_witness:
  "length (buffer \<lparr>buffer = replicate 504 0xAA, inverttext = True, cursor_x = 3, cursor_y = 2,
                    wire = [(RST, True)]\<rparr>) = 504
   \<and> clear \<lparr>buffer = replicate 504 0xAA, inverttext = True, cursor_x = 3, cursor_y = 2,
            wire = [(RST, True)]\<rparr> =
     \<lparr>buffer = replicate 504 0x00, inverttext = True, cursor_x = 3, cursor_y = 2,
      wire = (RST, True) # concat (replicate 504
       [(DC, True), (CE, False),
        (DIN, False), (CLK, False), (CLK, True), (DIN, False), (CLK, False), (CLK, True),
        (DIN, False), (CLK, False), (CLK, True), (DIN, False), (CLK, False), (CLK, True),
        (DIN, False), (CLK, False), (CLK, True), (DIN, False), (CLK, False), (CLK, True),
        (DIN, False), (CLK, False), (CLK, True), (DIN, False), (CLK, False), (CLK, True),
        (CE, True)])\<rparr>"
  using clear_zeroes_buffer_and_sends_each_byte
    [of "\<lparr>buffer = replicate 504 0xAA, inverttext = True, cursor_x = 3, cursor_y = 2,
          wire = [(RST, True)]\<rparr>"]
  by simp

subsection \<open>shift_data\<close>

text \<open>
  C5. With \<^verbatim>\<open>shift_value = 0\<close>, \<^verbatim>\<open>shift_data\<close> copies: for every column \<open>i\<close> below
  \<^verbatim>\<open>char_width\<close> and every row \<open>j\<close> below \<^verbatim>\<open>bit_count\<close> the output byte at
  \<open>i + j * char_width\<close> is the input byte at the same index. The two arrays hold the
  \<open>char_width * bit_count\<close> bytes the loops address, as the source assumes.
\<close>

theorem shift_data_zero_shift_copies:
  assumes "unat cw * unat bc \<le> length src"
    and "unat cw * unat bc \<le> length out"
  shows "\<exists>nd. shift_data src cw out 0 bc = Inr nd
           \<and> length nd = length out
           \<and> (\<forall>i<unat cw. \<forall>j<unat bc. nd ! (i + j * unat cw) = src ! (i + j * unat cw))"
proof -
  let ?W = "unat cw" and ?B = "unat bc"
  let ?Q = "settled (\<lambda>k. src ! k) out"
  let ?body = "\<lambda>i j nd. and_then (load GlyphOverread src (int (i + j * ?W)))
                 (\<lambda>v. store ScratchOverrun nd (int (i + j * ?W)) v)"
  have inner: "\<exists>t'. for_each [0..<?B] (?body i) t = Inr t'
                 \<and> ?Q (S \<union> (\<Union>j\<in>set [0..<?B]. {i + j * ?W})) t'"
    if i: "i \<in> set [0..<?W]" and Q: "?Q S t" for i S t
  proof (rule for_each_accum [where Q = ?Q, OF Q])
    fix j T u
    assume j: "j \<in> set [0..<?B]" and u: "?Q T u"
    have c: "i + j * ?W < ?W * ?B"
      using i j by (simp add: cell_less)
    have "length u = length out"
      using u by (simp add: settled_def)
    then show "\<exists>t'. ?body i j u = Inr t' \<and> ?Q (T \<union> {i + j * ?W}) t'"
      using c assms settled_step [OF u, of "i + j * ?W"]
      by (simp del: of_nat_add of_nat_mult)
  qed
  have "\<exists>nd. for_each [0..<?W] (\<lambda>i. for_each [0..<?B] (?body i)) out = Inr nd
          \<and> ?Q ({} \<union> (\<Union>i\<in>set [0..<?W]. \<Union>j\<in>set [0..<?B]. {i + j * ?W})) nd"
    by (rule for_each_accum [where Q = ?Q, OF settled_start]) (rule inner)
  then obtain nd where run: "for_each [0..<?W] (\<lambda>i. for_each [0..<?B] (?body i)) out = Inr nd"
    and Q: "?Q (\<Union>i\<in>set [0..<?W]. \<Union>j\<in>set [0..<?B]. {i + j * ?W}) nd"
    by auto
  have "nd ! (i + j * ?W) = src ! (i + j * ?W)" if "i < ?W" "j < ?B" for i j
  proof -
    have "i + j * ?W < length out"
      using that assms(2) cell_less [of i ?W j ?B] by simp
    moreover have "i + j * ?W \<in> (\<Union>i\<in>set [0..<?W]. \<Union>j\<in>set [0..<?B]. {i + j * ?W})"
      using that by (simp add: Bex_def) blast
    ultimately show ?thesis
      using Q unfolding settled_def by presburger
  qed
  moreover have "length nd = length out"
    using Q by (simp add: settled_def)
  moreover have "shift_data src cw out 0 bc = Inr nd"
    unfolding run [symmetric]
    by (simp only: shift_data_def Let_def cell_index simp_thms if_True)
  ultimately show ?thesis by blast
qed

theorem shift_data_zero_shift_copies_witness:
  "unat (2 :: byte) * unat (3 :: byte) \<le> length [0x11, 0x22, 0x33, 0x44, 0x55, 0x66 :: byte]
   \<and> unat (2 :: byte) * unat (3 :: byte) \<le> length (replicate 6 (0 :: byte))
   \<and> (\<exists>nd. shift_data [0x11, 0x22, 0x33, 0x44, 0x55, 0x66] 2 (replicate 6 0) 0 3 = Inr nd
           \<and> length nd = length (replicate 6 (0 :: byte))
           \<and> (\<forall>i<unat (2 :: byte). \<forall>j<unat (3 :: byte).
                nd ! (i + j * unat (2 :: byte))
                  = [0x11, 0x22, 0x33, 0x44, 0x55, 0x66] ! (i + j * unat (2 :: byte))))"
  using shift_data_zero_shift_copies
    [of 2 3 "[0x11, 0x22, 0x33, 0x44, 0x55, 0x66]" "replicate 6 0"]
  by simp

lemma for_each_snoc:
  "for_each (ks @ [k]) body s = and_then (for_each ks body s) (body k)"
proof (induction ks arbitrary: s)
  case Nil
  show ?case by (cases "body k s") simp_all
next
  case (Cons a ks)
  then show ?case by (cases "body a s") simp_all
qed

lemma overwrite_step:
  assumes "n < length xs" "n < length b"
  shows "(map g (take n xs) @ drop n b)[n := g (xs ! n)]
           = map g (take (Suc n) xs) @ drop (Suc n) b"
proof -
  have "drop n b = b ! n # drop (Suc n) b"
    using assms by (simp add: Cons_nth_drop_Suc)
  then show ?thesis
    using assms by (simp add: list_update_append take_Suc_conv_app_nth)
qed

lemma single_row_loop:
  assumes "n \<le> length src" "n \<le> length out"
  shows "for_each [0..<n] (\<lambda>i nd.
           and_then (load GlyphOverread src (int i)) (\<lambda>v.
           and_then (Inr (g v)) (\<lambda>shifted.
           store ScratchOverrun nd (int i) shifted))) out
         = Inr (map g (take n src) @ drop n out)"
  using assms
proof (induction n)
  case 0
  then show ?case by simp
next
  case (Suc n)
  then show ?case
    by (simp add: for_each_snoc overwrite_step)
qed

text \<open>
  C7. With a \<^verbatim>\<open>shift_value\<close> from 1 to 7 and \<^verbatim>\<open>bit_count == 1\<close>, \<^verbatim>\<open>shift_data\<close> writes
  \<^verbatim>\<open>data[i] >> shift_value\<close> to \<^verbatim>\<open>new_data[i]\<close> for each column \<open>i\<close> and nothing else:
  the rest of the output array is as it was, and the bits shifted out are in no byte.
\<close>

theorem shift_data_single_row_drops_bits:
  assumes "1 \<le> unat sv" "unat sv \<le> 7"
    and "unat cw \<le> length src" "unat cw \<le> length out"
  shows "shift_data src cw out sv 1
           = Inr (map (\<lambda>v. drop_bit (unat sv) v) (take (unat cw) src) @ drop (unat cw) out)"
proof -
  have "sv \<noteq> 0"
    using assms(1) by auto
  moreover have "\<not> 32 \<le> unat sv"
    using assms(2) by simp
  ultimately show ?thesis
    using single_row_loop [OF assms(3,4), of "\<lambda>v. drop_bit (unat sv) v"]
    by (simp add: shift_data_def)
qed

theorem shift_data_single_row_drops_bits_witness:
  "1 \<le> unat (3 :: byte) \<and> unat (3 :: byte) \<le> 7
   \<and> unat (2 :: byte) \<le> length [0xFF, 0x81 :: byte]
   \<and> unat (2 :: byte) \<le> length [0x00, 0x00, 0x5A :: byte]
   \<and> shift_data [0xFF, 0x81] 2 [0x00, 0x00, 0x5A] 3 1 = Inr [0x1F, 0x10, 0x5A]"
  using shift_data_single_row_drops_bits [of 3 2 "[0xFF, 0x81]" "[0x00, 0x00, 0x5A]"]
  by (simp add: drop_bit_eq_div)












subsection \<open>write_to_buffer\<close>







lemma buffer_HAL_GPIO_WritePin [simp]: "buffer (HAL_GPIO_WritePin l v st) = buffer st"
  by (simp add: HAL_GPIO_WritePin_def)

lemma buffer_setXY [simp]: "buffer (setXY x y st) = buffer st"
  by (simp add: setXY_def)

lemma buffer_fold_write_byte:
  "buffer (fold (\<lambda>j s. write_byte (g j s) mode s) js st) = buffer st"
  by (induction js arbitrary: st) simp_all

lemma buffer_fold_rows:
  "buffer (fold (\<lambda>i. fold (\<lambda>j s. write_byte (g i j s) mode s) js) ks st) = buffer st"
  by (induction ks arbitrary: st) (simp_all add: buffer_fold_write_byte)

lemma buffer_refresh_screen [simp]: "buffer (refresh_screen st) = buffer st"
  by (simp add: refresh_screen_def buffer_fold_rows)


lemma count_bits_1: "count_bits 1 = 1"
  by code_simp


subsection \<open>print_buffer and print\<close>

lemma and_then_assoc:
  "and_then (and_then m f) g = and_then m (\<lambda>v. and_then (f v) g)"
  by (cases m) simp_all

lemma byte_of_nat_mod: "(of_nat (n mod 256) :: byte) = of_nat n"
  by (simp add: word_eq_iff_unsigned [where ?'a = nat] unsigned_of_nat take_bit_eq_mod)

lemma uint_byte_of_nat: "uint (of_nat n :: byte) = int (n mod 256)"
  by (simp add: unsigned_of_nat take_bit_eq_mod)

lemma unat_byte_of_nat: "unat (of_nat n :: byte) = n mod 256"
  by (simp add: unsigned_of_nat take_bit_eq_mod)

text \<open>
  C10. \<^verbatim>\<open>print_buffer\<close> hands \<^verbatim>\<open>fontData[0].size()\<close>, the number \<open>N\<close> of columns of a
  glyph, to \<^verbatim>\<open>find_affected_rows\<close> as the height: printing a character is
  \<^verbatim>\<open>put_char_xy\<close> of a glyph whose \<^verbatim>\<open>char_width\<close> and \<^verbatim>\<open>char_height\<close> are both \<open>N\<close> (the
  width cut to 8 bits), followed by the rest of the string \<open>N\<close> columns further right.
\<close>

theorem print_buffer_takes_column_count_as_height:
  assumes "ch \<noteq> CHR 0x00"
  shows "print_buffer (ch # str) x y fontData st =
     and_then
       (load FontOverread (font_rows fontData)
          (int (of_char (if of_char ch < (32 :: nat) \<or> of_char ch > (126 :: nat)
                         then CHR '' '' else ch)) - 32))
       (\<lambda>glyph.
          and_then
            (put_char_xy \<lparr>char_width = font_N fontData mod 256,
                          char_height = font_N fontData, data = glyph\<rparr> x y st)
            (print_buffer str (x + of_nat (font_N fontData)) y fontData))"
  using assms
  by (simp add: put_char_xy_def Let_def and_then_assoc byte_of_nat_mod uint_byte_of_nat
      unat_byte_of_nat)

theorem print_buffer_takes_column_count_as_height_witness:
  "CHR ''!'' \<noteq> CHR 0x00
   \<and> print_buffer ''!'' 0 1
        \<lparr>font_N = 5, font_rows = [[0x00, 0x00, 0x00, 0x00, 0x00], [0x00, 0x00, 0x5F, 0x00, 0x00]]\<rparr>
        LcdDriver =
       and_then
         (put_char_xy \<lparr>char_width = 5, char_height = 5, data = [0x00, 0x00, 0x5F, 0x00, 0x00]\<rparr>
            0 1 LcdDriver)
         (print_buffer [] 5 1
            \<lparr>font_N = 5,
             font_rows = [[0x00, 0x00, 0x00, 0x00, 0x00], [0x00, 0x00, 0x5F, 0x00, 0x00]]\<rparr>)"
  using print_buffer_takes_column_count_as_height
    [of "CHR ''!''" "[]" 0 1
        "\<lparr>font_N = 5, font_rows = [[0x00, 0x00, 0x00, 0x00, 0x00], [0x00, 0x00, 0x5F, 0x00, 0x00]]\<rparr>"
        LcdDriver]
  by (simp add: load_def)

text \<open>
  An instance: the glyph \<^verbatim>\<open>'!'\<close> of a font of 5 columns, printed at \<open>y = 1\<close>. The mask is
  \<^verbatim>\<open>find_affected_rows(1, 5)\<close>, page 0 alone, where a glyph of 8 rows at \<open>y = 1\<close> lies on two
  pages; with one page counted, \<^verbatim>\<open>shift_data\<close> takes its last branch and column 2
  receives \<open>0x5F >> 1\<close>.
\<close>

lemma find_affected_rows_1_5: "find_affected_rows 1 5 = 1"
  by code_simp

lemma find_affected_rows_1_8: "find_affected_rows 1 8 = 3"
  by code_simp

lemma print_buffer_five_columns_at_row_1:
  "print_buffer ''!'' 0 1
     \<lparr>font_N = 5, font_rows = [[0x00, 0x00, 0x00, 0x00, 0x00], [0x00, 0x00, 0x5F, 0x00, 0x00]]\<rparr>
     LcdDriver
   = Inr (refresh_screen (LcdDriver\<lparr>buffer := (buffer LcdDriver)[2 := 0x2F]\<rparr>))"
proof -
  have "shift_data [0x00, 0x00, 0x5F, 0x00, 0x00] 5 (replicate 5 0x00) 1 1
      = Inr [0x00, 0x00, 0x2F, 0x00, 0x00]"
    by code_simp
  moreover have "write_to_buffer 0 1 [0x00, 0x00, 0x2F, 0x00, 0x00] 5 1 False LcdDriver
      = Inr (LcdDriver\<lparr>buffer := (buffer LcdDriver)[2 := 0x2F]\<rparr>)"
    by code_simp
  ultimately show ?thesis
    by (simp add: Let_def load_def find_affected_rows_1_5 count_bits_1)
qed




end
